theory Spec2Isabelle
  imports Complex_Main
begin

section \<open>Python strings\<close>

text \<open>
  Texts are modelled as \<open>string\<close>: one \<open>char\<close> per character, a \<open>char\<close> standing
  for the code point of the same number (0 to 255, the Latin-1 range). The functions
  below are Python's \<open>str\<close> methods and the classes of \<open>re\<close> on that range.
\<close>

definition py_isspace :: "char \<Rightarrow> bool" where
  \<comment> \<open>\<open>str.isspace\<close> and \<open>\s\<close>: tab, LF, VT, FF, CR, the separators 0x1C..0x1F, the
      blank, NEL (0x85) and the no-break space (0xA0)\<close>
  "py_isspace c =
     (c \<in> set [CHR 0x09, CHR 0x0A, CHR 0x0B, CHR 0x0C, CHR 0x0D,
                CHR 0x1C, CHR 0x1D, CHR 0x1E, CHR 0x1F, CHR '' '',
                CHR 0x85, CHR 0xA0])"

definition uppercase :: string where
  \<comment> \<open>the characters with \<open>str.isupper\<close>: A..Z, and 0xC0..0xDE but the sign 0xD7\<close>
  "uppercase =
     ''ABCDEFGHIJKLMNOPQRSTUVWXYZ'' @
     [CHR 0xC0, CHR 0xC1, CHR 0xC2, CHR 0xC3, CHR 0xC4, CHR 0xC5, CHR 0xC6, CHR 0xC7,
      CHR 0xC8, CHR 0xC9, CHR 0xCA, CHR 0xCB, CHR 0xCC, CHR 0xCD, CHR 0xCE, CHR 0xCF,
      CHR 0xD0, CHR 0xD1, CHR 0xD2, CHR 0xD3, CHR 0xD4, CHR 0xD5, CHR 0xD6, CHR 0xD8,
      CHR 0xD9, CHR 0xDA, CHR 0xDB, CHR 0xDC, CHR 0xDD, CHR 0xDE]"

definition lowercase :: string where
  \<comment> \<open>what \<open>str.lower\<close> makes of them, in the same order\<close>
  "lowercase =
     ''abcdefghijklmnopqrstuvwxyz'' @
     [CHR 0xE0, CHR 0xE1, CHR 0xE2, CHR 0xE3, CHR 0xE4, CHR 0xE5, CHR 0xE6, CHR 0xE7,
      CHR 0xE8, CHR 0xE9, CHR 0xEA, CHR 0xEB, CHR 0xEC, CHR 0xED, CHR 0xEE, CHR 0xEF,
      CHR 0xF0, CHR 0xF1, CHR 0xF2, CHR 0xF3, CHR 0xF4, CHR 0xF5, CHR 0xF6, CHR 0xF8,
      CHR 0xF9, CHR 0xFA, CHR 0xFB, CHR 0xFC, CHR 0xFD, CHR 0xFE]"

definition py_isupper :: "char \<Rightarrow> bool" where
  "py_isupper c = (c \<in> set uppercase)"

definition py_isdigit :: "char \<Rightarrow> bool" where
  \<comment> \<open>\<open>\d\<close>: the decimal digits\<close>
  "py_isdigit c = (c \<in> set ''0123456789'')"

definition py_isalnum :: "char \<Rightarrow> bool" where
  \<comment> \<open>\<open>str.isalnum\<close>: the letters of both cases, the digits, and the letters and
      numbers without case (0xAA, 0xB2, 0xB3, 0xB5, 0xB9, 0xBA, 0xBC..0xBE, 0xDF, 0xFF)\<close>
  "py_isalnum c =
     (c \<in> set (uppercase @ lowercase @ ''0123456789'' @
        [CHR 0xAA, CHR 0xB2, CHR 0xB3, CHR 0xB5, CHR 0xB9, CHR 0xBA,
         CHR 0xBC, CHR 0xBD, CHR 0xBE, CHR 0xDF, CHR 0xFF]))"

definition lower_char :: "char \<Rightarrow> char" where
  "lower_char c = (case map_of (zip uppercase lowercase) c of Some l \<Rightarrow> l | None \<Rightarrow> c)"

definition py_lower :: "string \<Rightarrow> string" where
  \<comment> \<open>\<open>s.lower()\<close>\<close>
  "py_lower s = map lower_char s"

definition py_strip :: "string \<Rightarrow> string" where
  \<comment> \<open>\<open>s.strip()\<close>\<close>
  "py_strip s = rev (dropWhile py_isspace (rev (dropWhile py_isspace s)))"

fun split_ws :: "string \<Rightarrow> string \<Rightarrow> string list" where
  "split_ws w [] = (if w = [] then [] else [w])"
| "split_ws w (c # cs) =
     (if py_isspace c then (if w = [] then split_ws [] cs else w # split_ws [] cs)
      else split_ws (w @ [c]) cs)"

definition py_split :: "string \<Rightarrow> string list" where
  \<comment> \<open>\<open>s.split()\<close>: the maximal runs of non-space characters.\<close>
  "py_split s = split_ws [] s"

fun startswith :: "string \<Rightarrow> string \<Rightarrow> bool" where
  \<comment> \<open>\<open>s.startswith(p)\<close>\<close>
  "startswith s [] = True"
| "startswith [] (p # ps) = False"
| "startswith (c # cs) (p # ps) = (c = p \<and> startswith cs ps)"

fun py_in :: "string \<Rightarrow> string \<Rightarrow> bool" where
  \<comment> \<open>\<open>p in s\<close> on strings: \<open>p\<close> occurs in \<open>s\<close> as a substring.\<close>
  "py_in p [] = (p = [])"
| "py_in p (c # cs) = (startswith (c # cs) p \<or> py_in p cs)"

definition py_count :: "string \<Rightarrow> char \<Rightarrow> nat" where
  \<comment> \<open>\<open>s.count(c)\<close> for a one-character argument\<close>
  "py_count s c = length (filter (\<lambda>x. x = c) s)"

section \<open>Regular expressions of the \<open>re\<close> module\<close>

text \<open>
  The patterns the analysis code searches for use literals, classes, alternation,
  \<open>?\<close>, \<open>+\<close> on a class, counted repetition and the word boundary \<open>\b\<close>.
  A match position is the previous character (if any) and the rest of the text;
  \<open>rx_step\<close> lists the positions a pattern can end at.
\<close>

datatype rx =
    Eps
  | Chr char
  | Cls "char \<Rightarrow> bool"
  | Cat rx rx
  | Alt rx rx
  | Opt rx
  | Plus "char \<Rightarrow> bool"
  | Boundary

definition is_word :: "char option \<Rightarrow> bool" where
  \<comment> \<open>\<open>\w\<close>; absent at either end of the text\<close>
  "is_word p =
     (case p of None \<Rightarrow> False
      | Some c \<Rightarrow> py_isalnum c \<or> c = CHR ''_'')"

fun plus_step :: "(char \<Rightarrow> bool) \<Rightarrow> char option \<times> string \<Rightarrow> (char option \<times> string) list" where
  "plus_step P (p, []) = []"
| "plus_step P (p, c # cs) = (if P c then (Some c, cs) # plus_step P (Some c, cs) else [])"

fun rx_step :: "rx \<Rightarrow> char option \<times> string \<Rightarrow> (char option \<times> string) list" where
  "rx_step Eps st = [st]"
| "rx_step (Chr a) (p, s) = (case s of [] \<Rightarrow> [] | c # cs \<Rightarrow> if c = a then [(Some c, cs)] else [])"
| "rx_step (Cls P) (p, s) = (case s of [] \<Rightarrow> [] | c # cs \<Rightarrow> if P c then [(Some c, cs)] else [])"
| "rx_step (Cat a b) st = concat (map (rx_step b) (rx_step a st))"
| "rx_step (Alt a b) st = rx_step a st @ rx_step b st"
| "rx_step (Opt a) st = rx_step a st @ [st]"
| "rx_step (Plus P) st = plus_step P st"
| "rx_step Boundary (p, s) =
     (if is_word p \<noteq> is_word (case s of [] \<Rightarrow> None | c # _ \<Rightarrow> Some c) then [(p, s)] else [])"

fun rx_search_from :: "rx \<Rightarrow> char option \<Rightarrow> string \<Rightarrow> bool" where
  "rx_search_from r p [] = (rx_step r (p, []) \<noteq> [])"
| "rx_search_from r p (c # cs) = (rx_step r (p, c # cs) \<noteq> [] \<or> rx_search_from r (Some c) cs)"

definition re_search :: "rx \<Rightarrow> string \<Rightarrow> bool" where
  \<comment> \<open>whether \<open>re.search(pattern, text)\<close> finds a match\<close>
  "re_search r s = rx_search_from r None s"

definition lit :: "string \<Rightarrow> rx" where
  "lit s = foldr (\<lambda>c r. Cat (Chr c) r) s Eps"

definition times :: "nat \<Rightarrow> rx \<Rightarrow> rx" where
  \<comment> \<open>\<open>r{n}\<close>\<close>
  "times n r = foldr Cat (replicate n r) Eps"

definition alts :: "string list \<Rightarrow> rx" where
  \<comment> \<open>\<open>(a|b|c)\<close> over literals\<close>
  "alts ws = foldr (\<lambda>w r. Alt (lit w) r) (butlast ws) (lit (last ws))"

section \<open>Fake-review detection (services/analysis/fake\_detection.py)\<close>

record review =
  review_text :: string
  rating :: int
  verified_purchase :: bool
  sentiment_label :: "string option"
  sentiment_score :: "real option"
  is_suspicious :: bool
  suspicious_score :: int

definition GENERIC_PHRASES :: "string list" where
  "GENERIC_PHRASES =
     [''good product'', ''nice product'', ''best product'', ''worst product'',
      ''highly recommend'', ''do not buy'', ''waste of money'', ''value for money'',
      ''must buy'', ''don't buy'', ''excellent'', ''terrible'', ''amazing'', ''horrible'',
      ''five stars'', ''one star'', ''5 stars'', ''1 star'']"

definition spam_patterns :: "rx list" where
  "spam_patterns =
     [Cat (lit ''http'') (Cat (Opt (Chr CHR ''s'')) (lit ''://'')),
      Cat Boundary (Cat (alts [''seller'', ''shop'', ''store''])
        (Cat (Plus py_isspace) (Cat (alts [''is'', ''was''])
          (Cat (Plus py_isspace) (Cat (alts [''great'', ''best'', ''good'']) Boundary))))),
      Alt (times 10 (Cls py_isdigit))
        (Cat (times 3 (Cls py_isdigit))
          (Cat (Opt (Cls (\<lambda>c. c = CHR ''-'' \<or> c = CHR ''.'' \<or> py_isspace c)))
            (Cat (times 3 (Cls py_isdigit))
              (Cat (Opt (Cls (\<lambda>c. c = CHR ''-'' \<or> c = CHR ''.'' \<or> py_isspace c)))
                (times 4 (Cls py_isdigit))))))]"

definition calculate_suspicious_score :: "review \<Rightarrow> int" where
  "calculate_suspicious_score r =
     (let score = 0;
          text = py_lower (review_text r);
          word_count = length (py_split text);
          \<comment> \<open>1. short reviews with extreme ratings\<close>
          score = (if word_count < 10 \<and> rating r \<in> {1, 5} then score + 30
                   else if word_count < 20 \<and> rating r \<in> {1, 5} then score + 15
                   else score);
          \<comment> \<open>2. unverified purchase\<close>
          score = (if \<not> verified_purchase r then score + 25 else score);
          \<comment> \<open>3. generic phrases\<close>
          generic_count = length (filter (\<lambda>phrase. py_in phrase text) GENERIC_PHRASES);
          score = score + min 20 (int generic_count * 5);
          \<comment> \<open>4. all caps or excessive punctuation\<close>
          caps_ratio = real (length (filter py_isupper (review_text r)))
                         / real (max (length (review_text r)) 1);
          score = (if caps_ratio > 0.5 then score + 10 else score);
          exclamation_count = py_count (review_text r) CHR ''!'';
          score = (if exclamation_count > 3 then score + 5 else score);
          \<comment> \<open>5. extremely short\<close>
          score = (if word_count < 5 then score + 10 else score);
          \<comment> \<open>6. perfect rating with very short review\<close>
          score = (if rating r = 5 \<and> word_count < 15 then score + 10 else score);
          \<comment> \<open>7. spam indicators: the first pattern that matches ends the loop\<close>
          score = (if list_ex (\<lambda>pattern. re_search pattern text) spam_patterns
                   then score + 10 else score)
      in min 100 score)"

definition detect_fake_reviews :: "review list \<Rightarrow> review list" where
  \<comment> \<open>the rows as the loop over \<open>reviews\<close> leaves them\<close>
  "detect_fake_reviews reviews =
     map (\<lambda>review.
            let score = calculate_suspicious_score review
            in review\<lparr>suspicious_score := score, is_suspicious := (score \<ge> 50)\<rparr>)
         reviews"

section \<open>Job tracker (routers/scraping.py, schemas/scraping.py)\<close>

type_synonym datetime = real

datatype JobStatus = PENDING | RUNNING | COMPLETED | FAILED | CANCELLED

record job =
  job_id :: string
  status :: JobStatus
  product_id :: "int option"
  progress :: int
  reviews_scraped :: int
  message :: "string option"
  started_at :: "datetime option"
  completed_at :: "datetime option"
  error :: "string option"

text \<open>\<open>scrape_jobs\<close>, the in-memory dictionary from job identifier to job.\<close>

type_synonym registry = "string \<rightharpoonup> job"

datatype exn = HTTPException nat string | KeyError | ValueError string | PipelineError

fun str_nat :: "nat \<Rightarrow> string" where
  "str_nat n =
     (if n < 10 then [''0123456789'' ! n]
      else str_nat (n div 10) @ [''0123456789'' ! (n mod 10)])"

declare str_nat.simps [simp del]

definition str_int :: "int \<Rightarrow> string" where
  \<comment> \<open>the decimal text an f-string gives an integer\<close>
  "str_int i = (if i < 0 then CHR ''-'' # str_nat (nat (- i)) else str_nat (nat i))"

definition detect_platform :: "string \<Rightarrow> exn + string" where
  "detect_platform url =
     (let url_lower = py_lower url
      in if py_in ''amazon'' url_lower then Inr ''amazon''
         else if py_in ''flipkart'' url_lower then Inr ''flipkart''
         else Inl (ValueError ''Unsupported platform. Only Amazon and Flipkart are supported.''))"

definition start_scraping :: "registry \<Rightarrow> string \<Rightarrow> string \<Rightarrow> exn + registry" where
  \<comment> \<open>\<open>new_id\<close> is the fresh \<open>uuid4\<close>; the background task is scheduled, not run.\<close>
  "start_scraping scrape_jobs url new_id =
     (case detect_platform url of
        Inl e \<Rightarrow>
          Inl (HTTPException 400 (case e of ValueError m \<Rightarrow> m | _ \<Rightarrow> []))
      | Inr platform \<Rightarrow>
          Inr (scrape_jobs(new_id \<mapsto>
            \<lparr>job_id = new_id, status = PENDING, product_id = None, progress = 0,
             reviews_scraped = 0,
             message = Some (''Scraping '' @ platform @ '' product...''),
             started_at = None, completed_at = None, error = None\<rparr>)))"

definition update_job :: "registry \<Rightarrow> string \<Rightarrow> (job \<Rightarrow> job) \<Rightarrow> exn + registry" where
  \<comment> \<open>the item assignments \<open>scrape_jobs[job_id][...] = ...\<close>: a missing key raises\<close>
  "update_job scrape_jobs jid f =
     (case scrape_jobs jid of
        None \<Rightarrow> Inl KeyError
      | Some j \<Rightarrow> Inr (scrape_jobs(jid \<mapsto> f j)))"

text \<open>
  \<open>run_scrape_job\<close> suspends at \<open>await scrape_product(...)\<close>, so other handlers run
  in between. Its three atomic pieces: the lines before the await, the lines after a
  normal return, and the \<open>except\<close> branch.
\<close>

definition run_scrape_job_start :: "registry \<Rightarrow> string \<Rightarrow> datetime \<Rightarrow> exn + registry" where
  "run_scrape_job_start scrape_jobs jid now =
     update_job scrape_jobs jid (\<lambda>j. j\<lparr>status := RUNNING, started_at := Some now\<rparr>)"

definition run_scrape_job_success ::
    "registry \<Rightarrow> string \<Rightarrow> int \<Rightarrow> int \<Rightarrow> datetime \<Rightarrow> exn + registry" where
  "run_scrape_job_success scrape_jobs jid pid reviews_count now =
     update_job scrape_jobs jid
       (\<lambda>j. j\<lparr>status := COMPLETED, product_id := Some pid,
               reviews_scraped := reviews_count, progress := 100,
               completed_at := Some now,
               message := Some (''Successfully scraped '' @ str_int reviews_count @ '' reviews'')\<rparr>)"

definition run_scrape_job_except ::
    "registry \<Rightarrow> string \<Rightarrow> string \<Rightarrow> datetime \<Rightarrow> exn + registry" where
  "run_scrape_job_except scrape_jobs jid e now =
     update_job scrape_jobs jid
       (\<lambda>j. j\<lparr>status := FAILED, error := Some e, completed_at := Some now\<rparr>)"

definition update_job_progress :: "registry \<Rightarrow> string \<Rightarrow> int \<Rightarrow> int \<Rightarrow> registry" where
  "update_job_progress scrape_jobs jid p reviews_count =
     (case scrape_jobs jid of
        None \<Rightarrow> scrape_jobs
      | Some j \<Rightarrow> scrape_jobs(jid \<mapsto> j\<lparr>progress := p, reviews_scraped := reviews_count\<rparr>))"

definition cancel_scrape :: "registry \<Rightarrow> string \<Rightarrow> datetime \<Rightarrow> exn + registry \<times> string" where
  "cancel_scrape scrape_jobs jid now =
     (case scrape_jobs jid of
        None \<Rightarrow> Inl (HTTPException 404 ''Job not found'')
      | Some j \<Rightarrow>
          if status j \<in> set [COMPLETED, FAILED]
          then Inl (HTTPException 400 ''Job already finished'')
          else Inr (scrape_jobs(jid \<mapsto>
                     j\<lparr>status := CANCELLED, completed_at := Some now,
                       message := Some ''Job cancelled by user''\<rparr>),
                    ''Job cancelled''))"

text \<open>
  What can happen to one job after its creation: the pieces of its background task,
  the progress callback, and cancel requests. An exception that leaves a handler
  leaves the registry as it was.
\<close>

datatype event =
    Start datetime
  | Progress int int
  | Success int int datetime
  | Except string datetime
  | Cancel datetime

definition keep :: "registry \<Rightarrow> exn + registry \<Rightarrow> registry" where
  "keep scrape_jobs r = (case r of Inl _ \<Rightarrow> scrape_jobs | Inr scrape_jobs' \<Rightarrow> scrape_jobs')"

fun apply_event :: "string \<Rightarrow> registry \<Rightarrow> event \<Rightarrow> registry" where
  "apply_event jid scrape_jobs (Start now) =
     keep scrape_jobs (run_scrape_job_start scrape_jobs jid now)"
| "apply_event jid scrape_jobs (Progress p c) = update_job_progress scrape_jobs jid p c"
| "apply_event jid scrape_jobs (Success pid c now) =
     keep scrape_jobs (run_scrape_job_success scrape_jobs jid pid c now)"
| "apply_event jid scrape_jobs (Except e now) =
     keep scrape_jobs (run_scrape_job_except scrape_jobs jid e now)"
| "apply_event jid scrape_jobs (Cancel now) =
     keep scrape_jobs (map_sum id fst (cancel_scrape scrape_jobs jid now))"

definition run_events :: "string \<Rightarrow> registry \<Rightarrow> event list \<Rightarrow> registry" where
  "run_events jid scrape_jobs evs = foldl (apply_event jid) scrape_jobs evs"

fun status_trace :: "string \<Rightarrow> registry \<Rightarrow> event list \<Rightarrow> JobStatus option list" where
  \<comment> \<open>the job's status before the first event and after each event\<close>
  "status_trace jid scrape_jobs [] = [map_option status (scrape_jobs jid)]"
| "status_trace jid scrape_jobs (ev # evs) =
     map_option status (scrape_jobs jid) # status_trace jid (apply_event jid scrape_jobs ev) evs"

text \<open>
  The control flow of \<open>run_scrape_job\<close>: the task starts once, reports progress while
  the scraper runs, and ends once, by a normal return or in the \<open>except\<close> branch.
  Cancel requests arrive at any time.
\<close>

datatype driver_pc = NotStarted | Scraping | Returned

fun driver_step :: "driver_pc \<Rightarrow> event \<Rightarrow> driver_pc option" where
  "driver_step pc (Cancel now) = Some pc"
| "driver_step NotStarted (Start now) = Some Scraping"
| "driver_step Scraping (Progress p c) = Some Scraping"
| "driver_step Scraping (Success pid c now) = Some Returned"
| "driver_step Scraping (Except e now) = Some Returned"
| "driver_step pc ev = None"

fun driver_run :: "driver_pc \<Rightarrow> event list \<Rightarrow> driver_pc option" where
  "driver_run pc [] = Some pc"
| "driver_run pc (ev # evs) =
     (case driver_step pc ev of None \<Rightarrow> None | Some pc' \<Rightarrow> driver_run pc' evs)"

definition schedule :: "driver_pc \<Rightarrow> event list \<Rightarrow> bool" where
  \<comment> \<open>the events are a possible history of one job whose task is at \<open>pc\<close>\<close>
  "schedule pc evs = (driver_run pc evs \<noteq> None)"

fun is_cancel :: "event \<Rightarrow> bool" where
  "is_cancel (Cancel now) = True"
| "is_cancel ev = False"

fun rank :: "JobStatus option \<Rightarrow> nat" where
  "rank (Some PENDING) = 0"
| "rank (Some RUNNING) = 1"
| "rank st = 2"

text \<open>The statuses a job can have while its task is at \<open>pc\<close>.\<close>

fun compatible :: "driver_pc \<Rightarrow> JobStatus \<Rightarrow> bool" where
  "compatible NotStarted st = (st = PENDING \<or> st = CANCELLED)"
| "compatible Scraping st = (st = RUNNING \<or> st = CANCELLED)"
| "compatible Returned st = (st = COMPLETED \<or> st = FAILED)"

fun uncancelled :: "driver_pc \<Rightarrow> JobStatus \<Rightarrow> bool" where
  "uncancelled NotStarted st = (st = PENDING)"
| "uncancelled Scraping st = (st = RUNNING)"
| "uncancelled Returned st = (st = COMPLETED \<or> st = FAILED)"

fun pc_rank :: "driver_pc \<Rightarrow> nat" where
  "pc_rank NotStarted = 0"
| "pc_rank Scraping = 1"
| "pc_rank Returned = 2"

section \<open>Sentiment stage (services/analysis/sentiment.py)\<close>

text \<open>
  The transformer pipeline is the stage's input: called on a list of texts it returns
  one (label, score) per text, or raises (\<open>None\<close>). \<open>get_sentiment_pipeline\<close> gives
  the pipeline, or raises when the model cannot be loaded (\<open>None\<close>). Scores are
  modelled as reals. Every function returns, beside its result, the list of the
  pipeline's invocations it made (the texts of each call).
\<close>

type_synonym classifier = "string list \<Rightarrow> (string \<times> real) list option"

definition label_of_result :: "string \<times> real \<Rightarrow> string \<times> real" where
  \<comment> \<open>maps LABEL\_0/LABEL\_1 or POSITIVE/NEGATIVE\<close>
  "label_of_result result =
     (let label = py_lower (fst result); score = snd result
      in if py_in ''positive'' label \<or> label = ''label_1'' then (''positive'', score)
         else if py_in ''negative'' label \<or> label = ''label_0'' then (''negative'', score)
         else (''neutral'', score))"

definition analyze_text ::
    "classifier option \<Rightarrow> string \<Rightarrow> (string \<times> real) \<times> string list list" where
  "analyze_text get_sentiment_pipeline text =
     (if text = [] \<or> length (py_strip text) < 3 then ((''neutral'', 0.5), [])
      else
        (let text = take 512 text
         in case get_sentiment_pipeline of
              None \<Rightarrow> ((''neutral'', 0.5), [])
            | Some pipeline \<Rightarrow>
                (case pipeline [text] of
                   None \<Rightarrow> ((''neutral'', 0.5), [[text]])
                 | Some [] \<Rightarrow> ((''neutral'', 0.5), [[text]])
                 | Some (result # _) \<Rightarrow> (label_of_result result, [[text]]))))"

fun texts_batches :: "nat \<Rightarrow> 'a list \<Rightarrow> 'a list list" where
  \<comment> \<open>\<open>texts[i:i + batch_size]\<close> for \<open>i\<close> in \<open>range(0, len(texts), batch_size)\<close>\<close>
  "texts_batches batch_size texts =
     (if batch_size = 0 \<or> texts = [] then []
      else take batch_size texts # texts_batches batch_size (drop batch_size texts))"

declare texts_batches.simps [simp del]

definition analyze_batch ::
    "classifier \<Rightarrow> string list \<Rightarrow> (string \<times> real) list \<times> string list list" where
  \<comment> \<open>the body of the loop over the batches\<close>
  "analyze_batch pipeline batch =
     (let batch = map (\<lambda>t. if t \<noteq> [] then take 512 t else []) batch
      in case pipeline batch of
           None \<Rightarrow> (replicate (length batch) (''neutral'', 0.5), [batch])
         | Some batch_results \<Rightarrow> (map label_of_result batch_results, [batch]))"

definition analyze_texts_batch ::
    "classifier option \<Rightarrow> string list \<Rightarrow> nat \<Rightarrow>
     exn + (string \<times> real) list \<times> string list list" where
  "analyze_texts_batch get_sentiment_pipeline texts batch_size =
     (case get_sentiment_pipeline of
        None \<Rightarrow> Inl PipelineError
      | Some pipeline \<Rightarrow>
          if batch_size = 0 then Inl (ValueError ''range() arg 3 must not be zero'')
          else
            (let outs = map (analyze_batch pipeline) (texts_batches batch_size texts)
             in Inr (concat (map fst outs), concat (map snd outs))))"

fun update_rows :: "review list \<Rightarrow> (string \<times> real) list \<Rightarrow> review list" where
  \<comment> \<open>the assignments under \<open>for review, (label, score) in zip(reviews, sentiments)\<close>\<close>
  "update_rows (review # rs) ((label, score) # ss) =
     review\<lparr>sentiment_label := Some label, sentiment_score := Some score\<rparr> # update_rows rs ss"
| "update_rows rs [] = rs"
| "update_rows [] ss = []"

definition signed_total :: "(string \<times> real) list \<Rightarrow> real" where
  \<comment> \<open>\<open>total_score\<close>: positive adds, negative subtracts\<close>
  "signed_total sentiments =
     foldl (\<lambda>total_score (label, score).
              if label = ''positive'' then total_score + score
              else if label = ''negative'' then total_score - score
              else total_score)
           0 sentiments"

definition normalized_score :: "(string \<times> real) list \<Rightarrow> nat \<Rightarrow> real" where
  \<comment> \<open>converts -1..1 to 0..100; \<open>n\<close> is \<open>total = len(reviews)\<close>\<close>
  "normalized_score sentiments n = ((signed_total sentiments / real n) + 1) / 2 * 100"

definition overall_score :: "(string \<times> real) list \<Rightarrow> nat \<Rightarrow> real" where
  "overall_score sentiments n = max 0 (min 100 (normalized_score sentiments n))"

definition overall_label :: "real \<Rightarrow> string" where
  "overall_label score =
     (if score \<ge> 60 then ''positive'' else if score \<le> 40 then ''negative'' else ''neutral'')"

text \<open>
  The result of the stage: the rows as written back, and the overall score (before
  the final \<open>round(..., 2)\<close>) with its label.
\<close>

record sentiment_result =
  rows :: "review list"
  sentiment_overall_score :: real
  sentiment_overall_label :: string

definition analyze_product_sentiment ::
    "classifier option \<Rightarrow> review list \<Rightarrow> exn + sentiment_result \<times> string list list" where
  "analyze_product_sentiment get_sentiment_pipeline reviews =
     (if reviews = [] then
        Inr (\<lparr>rows = [], sentiment_overall_score = 50, sentiment_overall_label = ''neutral''\<rparr>, [])
      else
        (let texts = map review_text reviews
         in case analyze_texts_batch get_sentiment_pipeline texts 32 of
              Inl e \<Rightarrow> Inl e
            | Inr (sentiments, calls) \<Rightarrow>
                (let score = overall_score (take (length reviews) sentiments) (length reviews)
                 in Inr (\<lparr>rows = update_rows reviews sentiments,
                          sentiment_overall_score = score,
                          sentiment_overall_label = overall_label score\<rparr>, calls))))"

section \<open>Insights stage (services/analysis/insights.py)\<close>

definition labelled :: "review \<Rightarrow> bool" where
  \<comment> \<open>\<open>if r.sentiment_label\<close>: neither \<open>None\<close> nor the empty string\<close>
  "labelled r = (case sentiment_label r of None \<Rightarrow> False | Some l \<Rightarrow> l \<noteq> [])"

definition sentiment_dist :: "review list \<Rightarrow> string \<Rightarrow> nat" where
  \<comment> \<open>\<open>Counter(r.sentiment_label for r in reviews if r.sentiment_label).get(l, 0)\<close>\<close>
  "sentiment_dist reviews l =
     length (filter (\<lambda>r. sentiment_label r = Some l) (filter labelled reviews))"

definition rating_score :: "review list \<Rightarrow> real" where
  "rating_score reviews =
     (let avg_rating = real_of_int (sum_list (map rating reviews)) / real (length reviews)
      in (avg_rating / 5) * 100)"

definition sentiment_component :: "review list \<Rightarrow> real" where
  \<comment> \<open>the local \<open>sentiment_score\<close> of \<open>generate_product_insights\<close>\<close>
  "sentiment_component reviews =
     (let total_analyzed = length (filter labelled reviews)
      in if total_analyzed > 0 then
           (let positive_ratio = real (sentiment_dist reviews ''positive'') / real total_analyzed;
                negative_ratio = real (sentiment_dist reviews ''negative'') / real total_analyzed
            in (positive_ratio - negative_ratio + 1) / 2 * 100)
         else 50)"

definition insights_overall_score :: "review list \<Rightarrow> real" where
  \<comment> \<open>weighted: 60% sentiment, 40% rating; the value before \<open>round(..., 2)\<close>\<close>
  "insights_overall_score reviews = sentiment_component reviews * 0.6 + rating_score reviews * 0.4"

definition generate_product_insights :: "bool \<Rightarrow> int \<Rightarrow> review list \<Rightarrow> exn + real" where
  \<comment> \<open>the \<open>overall_score\<close> entry of the returned dictionary, before \<open>round(..., 2)\<close>;
      \<open>product_found\<close>: whether the query for the product gives a row\<close>
  "generate_product_insights product_found pid reviews =
     (if \<not> product_found then Inl (ValueError (''Product '' @ str_int pid @ '' not found''))
      else if reviews = [] then Inr 50
      else Inr (insights_overall_score reviews))"

text \<open>
  The sentiments a product's labelled rows stand for: the stored label with the stored
  confidence, and with every confidence taken as 1.
\<close>

definition stored_sentiments :: "review list \<Rightarrow> (string \<times> real) list" where
  "stored_sentiments reviews =
     map (\<lambda>r. (the (sentiment_label r), case sentiment_score r of None \<Rightarrow> 0 | Some c \<Rightarrow> c))
         (filter labelled reviews)"

definition unit_sentiments :: "review list \<Rightarrow> (string \<times> real) list" where
  "unit_sentiments reviews = map (\<lambda>r. (the (sentiment_label r), 1)) (filter labelled reviews)"

section \<open>Analysis cache (routers/analysis.py, models/analysis.py)\<close>

text \<open>
  A cached result is the dictionary a stage returns, stored as JSON: a list of keys
  with their values. The database holds the products' identifiers and the rows of
  \<open>analysis_cache\<close> in insertion order; \<open>stage_runs\<close> counts the runs of the stage.
\<close>

record 'v analysis_cache_row =
  cache_product_id :: int
  analysis_type :: string
  results :: "(string \<times> 'v) list"
  created_at :: datetime

record 'v database =
  products :: "int list"
  analysis_cache :: "'v analysis_cache_row list"
  stage_runs :: nat

fun newest :: "'v analysis_cache_row list \<Rightarrow> 'v analysis_cache_row option" where
  \<comment> \<open>\<open>.order_by(created_at.desc()).first()\<close>; among equal times, the row inserted first\<close>
  "newest [] = None"
| "newest (c # cs) =
     (case newest cs of
        None \<Rightarrow> Some c
      | Some d \<Rightarrow> if created_at d > created_at c then Some d else Some c)"

definition cache_rows :: "'v database \<Rightarrow> int \<Rightarrow> string \<Rightarrow> 'v analysis_cache_row list" where
  \<comment> \<open>the \<open>filter\<close> of the query\<close>
  "cache_rows db pid ty =
     filter (\<lambda>c. cache_product_id c = pid \<and> analysis_type c = ty) (analysis_cache db)"

definition get_cached_analysis ::
    "'v database \<Rightarrow> datetime \<Rightarrow> int \<Rightarrow> string \<Rightarrow> (string \<times> 'v) list option" where
  "get_cached_analysis db now pid ty =
     (case newest (cache_rows db pid ty) of
        None \<Rightarrow> None
      | Some cache \<Rightarrow>
          (let age = now - created_at cache
           in if age < 86400 then Some (results cache) else None))"

definition save_analysis_cache ::
    "'v database \<Rightarrow> datetime \<Rightarrow> int \<Rightarrow> string \<Rightarrow> (string \<times> 'v) list \<Rightarrow> 'v database" where
  "save_analysis_cache db now pid ty res =
     db\<lparr>analysis_cache := analysis_cache db @
          [\<lparr>cache_product_id = pid, analysis_type = ty, results = res, created_at = now\<rparr>]\<rparr>"

text \<open>
  The four endpoints \<open>get_sentiment_analysis\<close>, \<open>get_aspect_analysis\<close>,
  \<open>get_topic_analysis\<close> and \<open>get_insights\<close> are one function of the stage's name and
  the stage. The stage's \<open>n\<close>-th run returns \<open>stage n\<close>, or raises (\<open>None\<close>).
  \<open>now\<close> is the clock at the lookup, \<open>saved\<close> the clock when the new row is inserted.
\<close>

definition get_analysis ::
    "string \<Rightarrow> (nat \<Rightarrow> (string \<times> 'v) list option) \<Rightarrow> 'v database \<Rightarrow> int \<Rightarrow> bool \<Rightarrow>
     datetime \<Rightarrow> datetime \<Rightarrow> exn + (string \<times> 'v) list \<times> 'v database" where
  "get_analysis ty stage db pid force_refresh now saved =
     (if pid \<notin> set (products db) then Inl (HTTPException 404 ''Product not found'')
      else
        (let cached = (if \<not> force_refresh then get_cached_analysis db now pid ty else None)
         in case cached of
              Some (kv # kvs) \<Rightarrow> Inr (kv # kvs, db)
            | _ \<Rightarrow>
                (case stage (stage_runs db) of
                   None \<Rightarrow> Inl PipelineError
                 | Some res \<Rightarrow>
                     Inr (res, save_analysis_cache (db\<lparr>stage_runs := stage_runs db + 1\<rparr>)
                                 saved pid ty res))))"

definition get_sentiment_analysis ::
    "(nat \<Rightarrow> (string \<times> 'v) list option) \<Rightarrow> 'v database \<Rightarrow> int \<Rightarrow> bool \<Rightarrow>
     datetime \<Rightarrow> datetime \<Rightarrow> exn + (string \<times> 'v) list \<times> 'v database" where
  "get_sentiment_analysis = get_analysis ''sentiment''"


section \<open>Scrape sessions (services/scraper/amazon.py, flipkart.py)\<close>

text \<open>
  A scraped review is the dictionary the parsers return, with its keys
  \<open>text\<close>, \<open>rating\<close>, \<open>date\<close>, \<open>reviewer_name\<close>, \<open>verified\<close>, \<open>helpful_count\<close>.
\<close>

record raw_review =
  r_text :: string
  r_rating :: int
  r_date :: int
  r_reviewer_name :: string
  r_verified :: bool
  r_helpful_count :: int

text \<open>
  The local variables of \<open>scrape_reviews\<close>, and two logs of what the session does
  to the outside: the page index of every iteration that enters the \<open>try\<close> block,
  and the arguments of every call of the progress callback.
\<close>

record scrape_state =
  reviews :: "raw_review list"
  page :: nat
  consecutive_empty :: nat
  consecutive_errors :: nat
  requested :: "nat list"
  progress_calls :: "(nat \<times> int) list"

definition initial_state :: scrape_state where
  "initial_state =
     \<lparr>reviews = [], page = 1, consecutive_empty = 0, consecutive_errors = 0,
      requested = [], progress_calls = []\<rparr>"

text \<open>
  What the network does is the session's input. \<open>Raises\<close> is an exception raised in
  the \<open>try\<close> block before the loop over the reviews (building the URL, the transport,
  the parser); \<open>Response code body\<close> is a response with its status code and what the
  extraction finds in its body.
\<close>

datatype 'b fetch = Raises | Response int 'b

text \<open>
  An Amazon page as the loop reads it: whether the CAPTCHA input is there, whether the
  text holds "Something went wrong" or "Serve Protection", and the review containers
  of the two layouts, each container standing for what \<open>_parse_review\<close> returns on it.
\<close>

record soup =
  captcha :: bool
  block_text :: bool
  review_divs :: "raw_review option list"
  alt_divs :: "raw_review option list"

text \<open>One iteration's requests: the paginated reviews URL, and the fallback URL if asked.\<close>

type_synonym amazon_page = "soup fetch \<times> soup fetch"

type_synonym flipkart_page = "raw_review list fetch"

datatype 'a ctl = Break 'a | Continue 'a

definition loop_cond :: "int \<Rightarrow> scrape_state \<Rightarrow> bool" where
  \<comment> \<open>the \<open>while\<close> condition of both scrapers\<close>
  "loop_cond max_reviews s =
     (int (length (reviews s)) < max_reviews \<and> consecutive_empty s < 3
      \<and> consecutive_errors s < 5)"

fun amazon_for_divs :: "int \<Rightarrow> raw_review option list \<Rightarrow> scrape_state \<Rightarrow> scrape_state" where
  "amazon_for_divs max_reviews [] s = s"
| "amazon_for_divs max_reviews (d # ds) s =
     (if int (length (reviews s)) \<ge> max_reviews then s
      else case d of
             None \<Rightarrow> amazon_for_divs max_reviews ds s
           | Some review \<Rightarrow>
               let s = (if \<not> list_ex (\<lambda>r. r_text r = r_text review) (reviews s)
                        then s\<lparr>reviews := reviews s @ [review]\<rparr> else s);
                   s = s\<lparr>progress_calls :=
                          progress_calls s @ [(length (reviews s), max_reviews)]\<rparr>
               in amazon_for_divs max_reviews ds s)"

definition amazon_iteration ::
    "int \<Rightarrow> bool \<Rightarrow> amazon_page \<Rightarrow> scrape_state \<Rightarrow> scrape_state ctl" where
  \<comment> \<open>\<open>fallback_differs\<close>: whether \<open>_build_fallback_url\<close> gives another URL than the page's\<close>
  "amazon_iteration max_reviews fallback_differs pg s =
     (let s = s\<lparr>requested := requested s @ [page s]\<rparr>
      in case fst pg of
           Raises \<Rightarrow> Continue (s\<lparr>consecutive_errors := consecutive_errors s + 1\<rparr>)
         | Response status_code soup \<Rightarrow>
             if status_code \<noteq> 200 then
               (let s = s\<lparr>consecutive_errors := consecutive_errors s + 1\<rparr>
                in if status_code \<in> set [503, 403, 429] then Continue s
                   else Continue (s\<lparr>page := page s + 1\<rparr>))
             else if captcha soup then Break s
             else if block_text soup then
               Continue (s\<lparr>consecutive_errors := consecutive_errors s + 1\<rparr>)
             else
               (let divs = review_divs soup;
                    divs = (if divs = [] \<and> alt_divs soup \<noteq> [] then alt_divs soup else divs);
                    divs =
                      (if divs = [] \<and> page s = 1 \<and> consecutive_errors s = 0 \<and> fallback_differs
                       then (case snd pg of
                               Raises \<Rightarrow> divs
                             | Response code_fb soup_fb \<Rightarrow>
                                 if code_fb = 200 then review_divs soup_fb else divs)
                       else divs)
                in if divs = [] then
                     Continue (s\<lparr>consecutive_empty := consecutive_empty s + 1,
                                 page := page s + 1\<rparr>)
                   else
                     (let s = s\<lparr>consecutive_empty := 0, consecutive_errors := 0\<rparr>;
                          s = amazon_for_divs max_reviews divs s
                      in Continue (s\<lparr>page := page s + 1\<rparr>))))"

text \<open>
  The \<open>while\<close> loop over the responses of the network, in order. \<open>None\<close>: the loop
  asks for a response beyond the ones given, that is, the session is still running.
\<close>

fun amazon_loop :: "int \<Rightarrow> bool \<Rightarrow> amazon_page list \<Rightarrow> scrape_state \<Rightarrow> scrape_state option" where
  "amazon_loop max_reviews fd [] s = (if loop_cond max_reviews s then None else Some s)"
| "amazon_loop max_reviews fd (pg # pgs) s =
     (if \<not> loop_cond max_reviews s then Some s
      else case amazon_iteration max_reviews fd pg s of
             Break s' \<Rightarrow> Some s'
           | Continue s' \<Rightarrow> amazon_loop max_reviews fd pgs s')"

definition amazon_scrape_reviews ::
    "int \<Rightarrow> bool \<Rightarrow> amazon_page list \<Rightarrow> raw_review list option" where
  "amazon_scrape_reviews max_reviews fd pgs =
     map_option reviews (amazon_loop max_reviews fd pgs initial_state)"

fun flipkart_for_reviews :: "int \<Rightarrow> raw_review list \<Rightarrow> scrape_state \<Rightarrow> scrape_state" where
  "flipkart_for_reviews max_reviews [] s = s"
| "flipkart_for_reviews max_reviews (review # rest) s =
     (if int (length (reviews s)) \<ge> max_reviews then s
      else flipkart_for_reviews max_reviews rest
             (if \<not> list_ex (\<lambda>r. r_text r = r_text review) (reviews s)
              then s\<lparr>reviews := reviews s @ [review]\<rparr> else s))"

definition max_pages :: nat where
  "max_pages = 25"

definition flipkart_iteration :: "int \<Rightarrow> flipkart_page \<Rightarrow> scrape_state \<Rightarrow> scrape_state" where
  "flipkart_iteration max_reviews pg s =
     (let s = s\<lparr>requested := requested s @ [page s]\<rparr>
      in case pg of
           Raises \<Rightarrow> s\<lparr>consecutive_errors := consecutive_errors s + 1\<rparr>
         | Response status_code page_reviews \<Rightarrow>
             if status_code \<noteq> 200 then
               s\<lparr>consecutive_errors := consecutive_errors s + 1, page := page s + 1\<rparr>
             else if page_reviews = [] then
               s\<lparr>consecutive_empty := consecutive_empty s + 1, page := page s + 1\<rparr>
             else
               (let s = flipkart_for_reviews max_reviews page_reviews s;
                    s = s\<lparr>consecutive_empty := 0, consecutive_errors := 0\<rparr>;
                    s = s\<lparr>progress_calls :=
                           progress_calls s @ [(length (reviews s), max_reviews)]\<rparr>
                in s\<lparr>page := page s + 1\<rparr>))"

fun flipkart_loop :: "int \<Rightarrow> flipkart_page list \<Rightarrow> scrape_state \<Rightarrow> scrape_state option" where
  "flipkart_loop max_reviews [] s =
     (if loop_cond max_reviews s \<and> \<not> page s > max_pages then None else Some s)"
| "flipkart_loop max_reviews (pg # pgs) s =
     (if \<not> loop_cond max_reviews s then Some s
      else if page s > max_pages then Some s
      else flipkart_loop max_reviews pgs (flipkart_iteration max_reviews pg s))"

text \<open>
  Before its loop the Flipkart session resolves a search URL to a product URL, and
  returns the empty list when that fails.
\<close>

datatype url_resolution = ProductUrl | SearchFound | SearchNotFound

definition flipkart_scrape_reviews ::
    "int \<Rightarrow> url_resolution \<Rightarrow> flipkart_page list \<Rightarrow> raw_review list option" where
  "flipkart_scrape_reviews max_reviews res pgs =
     (case res of
        SearchNotFound \<Rightarrow> Some []
      | _ \<Rightarrow> map_option reviews (flipkart_loop max_reviews pgs initial_state))"

section \<open>Example inputs\<close>

definition pending_job :: job where
  "pending_job =
     \<lparr>job_id = ''j1'', status = PENDING, product_id = None, progress = 0,
      reviews_scraped = 0, message = Some ''Scraping amazon product...'',
      started_at = None, completed_at = None, error = None\<rparr>"

definition completed_job :: job where
  "completed_job =
     pending_job\<lparr>status := COMPLETED, product_id := Some 7, reviews_scraped := 10,
                 progress := 100, started_at := Some 1, completed_at := Some 3,
                 message := Some ''Successfully scraped 10 reviews''\<rparr>"

definition cancelled_job :: job where
  "cancelled_job =
     pending_job\<lparr>status := CANCELLED, started_at := Some 1, completed_at := Some 2,
                 message := Some ''Job cancelled by user''\<rparr>"

definition review_a :: raw_review where
  "review_a =
     \<lparr>r_text = ''Great phone'', r_rating = 5, r_date = 0, r_reviewer_name = ''A'',
      r_verified = True, r_helpful_count = 0\<rparr>"

definition review_b :: raw_review where
  "review_b =
     \<lparr>r_text = ''Battery is weak'', r_rating = 2, r_date = 0, r_reviewer_name = ''B'',
      r_verified = False, r_helpful_count = 3\<rparr>"

definition review_a_again :: raw_review where
  \<comment> \<open>the text of \<open>review_a\<close> under another name\<close>
  "review_a_again = review_a\<lparr>r_rating := 4, r_reviewer_name := ''C''\<rparr>"

definition reviews_soup :: "raw_review option list \<Rightarrow> soup" where
  "reviews_soup divs = \<lparr>captcha = False, block_text = False, review_divs = divs, alt_divs = []\<rparr>"

definition captcha_soup :: soup where
  "captcha_soup = \<lparr>captcha = True, block_text = False, review_divs = [], alt_divs = []\<rparr>"

definition always_positive :: classifier where
  \<comment> \<open>a pipeline that labels every text POSITIVE with score 0.99\<close>
  "always_positive texts = Some (map (\<lambda>t. (''POSITIVE'', 0.99)) texts)"

definition bad_review :: review where
  "bad_review =
     \<lparr>review_text = ''bad'', rating = 1, verified_purchase = False, sentiment_label = None,
      sentiment_score = None, is_suspicious = False, suspicious_score = 0\<rparr>"







definition short_review :: review where
  "short_review = bad_review\<lparr>review_text := ''ok''\<rparr>"

definition positive_review :: review where
  "positive_review =
     \<lparr>review_text = ''Great phone'', rating = 5, verified_purchase = True,
      sentiment_label = Some ''positive'', sentiment_score = Some 0.8,
      is_suspicious = False, suspicious_score = 0\<rparr>"


section \<open>Fake-review detection: score range and flag\<close>

lemma bump_nonneg: "0 \<le> s \<Longrightarrow> 0 \<le> k \<Longrightarrow> 0 \<le> (if c then s + k else (s::int))"
  by simp

lemma calculate_suspicious_score_nonneg: "0 \<le> calculate_suspicious_score r"
  unfolding calculate_suspicious_score_def Let_def
  by (intro min.boundedI bump_nonneg add_nonneg_nonneg) simp_all

lemma calculate_suspicious_score_le: "calculate_suspicious_score r \<le> 100"
  unfolding calculate_suspicious_score_def Let_def
  by (rule min.cobounded1)

lemma bad_review_score:
  "calculate_suspicious_score
     \<lparr>review_text = ''bad'', rating = 1, verified_purchase = False, sentiment_label = l,
      sentiment_score = c, is_suspicious = b, suspicious_score = k\<rparr> = 65"
  by code_simp

text \<open>
  C3. Every row the fake-detection stage has processed carries a suspicious score
  between 0 and 100, and its flag \<open>is_suspicious\<close> is set exactly when that score is
  at least 50.
\<close>

theorem suspicious_score_range_and_flag:
  "\<forall>r \<in> set (detect_fake_reviews rs).
     0 \<le> suspicious_score r \<and> suspicious_score r \<le> 100
     \<and> (is_suspicious r \<longleftrightarrow> suspicious_score r \<ge> 50)"
  by (simp add: detect_fake_reviews_def Let_def calculate_suspicious_score_nonneg
        calculate_suspicious_score_le)

theorem suspicious_score_range_and_flag_witness:
  "bad_review\<lparr>suspicious_score := 65, is_suspicious := True\<rparr>
     \<in> set (detect_fake_reviews [bad_review])
   \<and> (0 \<le> suspicious_score (bad_review\<lparr>suspicious_score := 65, is_suspicious := True\<rparr>)
      \<and> suspicious_score (bad_review\<lparr>suspicious_score := 65, is_suspicious := True\<rparr>) \<le> 100
      \<and> (is_suspicious (bad_review\<lparr>suspicious_score := 65, is_suspicious := True\<rparr>)
           \<longleftrightarrow> suspicious_score (bad_review\<lparr>suspicious_score := 65, is_suspicious := True\<rparr>) \<ge> 50))"
proof -
  have mem: "bad_review\<lparr>suspicious_score := 65, is_suspicious := True\<rparr>
               \<in> set (detect_fake_reviews [bad_review])"
    by (simp add: detect_fake_reviews_def Let_def bad_review_def bad_review_score)
  show ?thesis
    by (rule conjI [OF mem bspec [OF suspicious_score_range_and_flag mem]])
qed

text \<open>
  C8. The review with text "bad", not a verified purchase, rated 1, scores 65
  (30 for a short review with an extreme rating, 25 for the unverified purchase, 10
  for fewer than five words, nothing else), hence at least 65, and the stage stores
  it with \<open>is_suspicious\<close> true.
\<close>

theorem bad_review_is_suspicious:
  "calculate_suspicious_score
     \<lparr>review_text = ''bad'', rating = 1, verified_purchase = False, sentiment_label = l,
      sentiment_score = c, is_suspicious = b, suspicious_score = k\<rparr> \<ge> 65
   \<and> detect_fake_reviews
       [\<lparr>review_text = ''bad'', rating = 1, verified_purchase = False, sentiment_label = l,
         sentiment_score = c, is_suspicious = b, suspicious_score = k\<rparr>]
     = [\<lparr>review_text = ''bad'', rating = 1, verified_purchase = False, sentiment_label = l,
         sentiment_score = c, is_suspicious = True, suspicious_score = 65\<rparr>]"
  by (simp add: detect_fake_reviews_def Let_def bad_review_score)

section \<open>Job tracker: the life cycle of a job\<close>

lemma start_scraping_example:
  "start_scraping Map.empty ''https://www.amazon.in/dp/B0ABCDEFGH'' ''j1'' = Inr [''j1'' \<mapsto> pending_job]"
  by (simp add: start_scraping_def detect_platform_def py_lower_def lower_char_def uppercase_def
        lowercase_def pending_job_def)

lemma start_scraping_pending:
  "start_scraping jobs url jid = Inr jobs0 \<Longrightarrow> \<exists>j. jobs0 jid = Some j \<and> status j = PENDING"
  by (auto simp: start_scraping_def split: sum.splits)

lemma cancel_rejects_finished:
  "jobs jid = Some j \<Longrightarrow> status j = COMPLETED \<or> status j = FAILED \<Longrightarrow>
   cancel_scrape jobs jid now = Inl (HTTPException 400 ''Job already finished'')"
  by (auto simp: cancel_scrape_def)

lemma apply_event_step:
  assumes "jobs jid = Some j" "compatible pc (status j)" "driver_step pc ev = Some pc'"
  shows "\<exists>j'. apply_event jid jobs ev jid = Some j' \<and> compatible pc' (status j')"
  using assms
  by (cases pc; cases ev) (auto simp: keep_def run_scrape_job_start_def run_scrape_job_success_def
      run_scrape_job_except_def update_job_def update_job_progress_def cancel_scrape_def)

lemma apply_event_returned:
  assumes "jobs jid = Some j" "status j = COMPLETED \<or> status j = FAILED"
    "driver_step Returned ev = Some pc'"
  shows "pc' = Returned \<and> apply_event jid jobs ev = jobs"
  using assms by (cases ev) (auto simp: keep_def cancel_scrape_def)

lemma run_events_returned:
  "jobs jid = Some j \<Longrightarrow> status j = COMPLETED \<or> status j = FAILED \<Longrightarrow>
   schedule Returned evs \<Longrightarrow> run_events jid jobs evs = jobs"
proof (induction evs)
  case Nil
  then show ?case by (simp add: run_events_def)
next
  case (Cons ev evs)
  from Cons.prems(3) obtain pc' where st: "driver_step Returned ev = Some pc'"
    and rest: "schedule pc' evs"
    by (auto simp: schedule_def split: option.splits)
  from apply_event_returned [of jobs jid j ev pc'] Cons.prems(1,2) st
  have *: "pc' = Returned" "apply_event jid jobs ev = jobs" by simp_all
  from Cons.IH Cons.prems(1,2) rest * have "run_events jid jobs evs = jobs" by simp
  with * show ?case by (simp add: run_events_def)
qed

lemma run_events_compatible:
  "jobs jid = Some j \<Longrightarrow> compatible pc (status j) \<Longrightarrow> driver_run pc evs = Some pc' \<Longrightarrow>
   \<exists>j'. run_events jid jobs evs jid = Some j' \<and> compatible pc' (status j')"
proof (induction evs arbitrary: jobs j pc)
  case Nil
  then show ?case by (simp add: run_events_def)
next
  case (Cons ev evs)
  from Cons.prems(3) obtain pc1 where st: "driver_step pc ev = Some pc1"
    and rest: "driver_run pc1 evs = Some pc'"
    by (auto split: option.splits)
  from apply_event_step [of jobs jid j pc ev pc1] Cons.prems(1,2) st
  obtain j1 where j1: "apply_event jid jobs ev jid = Some j1" "compatible pc1 (status j1)"
    by blast
  from Cons.IH [of "apply_event jid jobs ev" j1 pc1] j1 rest
  show ?case by (simp add: run_events_def)
qed

lemma driver_run_append:
  "driver_run pc (evs1 @ evs2) = (case driver_run pc evs1 of None \<Rightarrow> None | Some pc1 \<Rightarrow> driver_run pc1 evs2)"
  by (induction evs1 arbitrary: pc) (auto split: option.splits)

lemma run_events_append:
  "run_events jid jobs (evs1 @ evs2) = run_events jid (run_events jid jobs evs1) evs2"
  by (simp add: run_events_def)

lemma finished_is_final:
  assumes "jobs jid = Some j" "status j = PENDING" "schedule NotStarted (evs1 @ evs2)"
    "run_events jid jobs evs1 jid = Some j1" "status j1 = COMPLETED \<or> status j1 = FAILED"
  shows "run_events jid jobs (evs1 @ evs2) = run_events jid jobs evs1"
proof -
  from assms(3) obtain pc1 where pc1: "driver_run NotStarted evs1 = Some pc1"
    and rest: "schedule pc1 evs2"
    by (auto simp: schedule_def driver_run_append split: option.splits)
  from run_events_compatible [of jobs jid j NotStarted evs1 pc1] assms(1,2,4) pc1
  have "compatible pc1 (status j1)" by auto
  with assms(5) have "pc1 = Returned" by (cases pc1) auto
  with rest run_events_returned [of "run_events jid jobs evs1" jid j1 evs2] assms(4,5)
  show ?thesis by (simp add: run_events_append)
qed

lemma apply_event_uncancelled:
  assumes "jobs jid = Some j" "uncancelled pc (status j)" "driver_step pc ev = Some pc'"
    "\<not> is_cancel ev"
  shows "\<exists>j'. apply_event jid jobs ev jid = Some j' \<and> uncancelled pc' (status j') \<and> pc_rank pc \<le> pc_rank pc'"
  using assms
  by (cases pc; cases ev) (auto simp: keep_def run_scrape_job_start_def run_scrape_job_success_def
      run_scrape_job_except_def update_job_def update_job_progress_def)

lemma uncancelled_rank: "uncancelled pc st \<Longrightarrow> rank (Some st) = pc_rank pc \<and> st \<noteq> CANCELLED"
  by (cases pc; cases st) auto

lemma trace_uncancelled:
  "jobs jid = Some j \<Longrightarrow> uncancelled pc (status j) \<Longrightarrow> schedule pc evs \<Longrightarrow>
   \<forall>ev \<in> set evs. \<not> is_cancel ev \<Longrightarrow>
   sorted (map rank (status_trace jid jobs evs))
   \<and> (\<forall>st \<in> set (status_trace jid jobs evs). pc_rank pc \<le> rank st \<and> st \<noteq> None \<and> st \<noteq> Some CANCELLED)"
proof (induction evs arbitrary: jobs j pc)
  case Nil
  then show ?case using uncancelled_rank by auto
next
  case (Cons ev evs)
  from Cons.prems(3) obtain pc1 where st: "driver_step pc ev = Some pc1"
    and rest: "schedule pc1 evs"
    by (auto simp: schedule_def split: option.splits)
  from Cons.prems(4) have nc: "\<not> is_cancel ev" "\<forall>ev \<in> set evs. \<not> is_cancel ev" by simp_all
  from apply_event_uncancelled [of jobs jid j pc ev pc1] Cons.prems(1,2) st nc(1)
  obtain j1 where j1: "apply_event jid jobs ev jid = Some j1" "uncancelled pc1 (status j1)"
    and le: "pc_rank pc \<le> pc_rank pc1"
    by blast
  from Cons.IH [of "apply_event jid jobs ev" j1 pc1] j1 rest nc(2)
  have IH: "sorted (map rank (status_trace jid (apply_event jid jobs ev) evs))"
    "\<forall>st \<in> set (status_trace jid (apply_event jid jobs ev) evs). pc_rank pc1 \<le> rank st \<and> st \<noteq> None \<and> st \<noteq> Some CANCELLED"
    by simp_all
  from uncancelled_rank [of pc "status j"] Cons.prems(1,2)
  have hd: "rank (map_option status (jobs jid)) = pc_rank pc" "status j \<noteq> CANCELLED" by simp_all
  show ?case using IH hd le Cons.prems(1) by (auto simp: )
qed

text \<open>
  C1, as the code has it. A job is created pending. As long as nobody cancels it, its
  status only moves forward through pending, running, and then completed or failed;
  and once it is completed or failed, nothing changes the registry any more: the task
  has made its last write, and every later cancel is rejected. (The task writes its
  statuses without reading the current one, so the same is not true of cancelled.)
\<close>

theorem job_status_lifecycle:
  assumes "start_scraping jobs url jid = Inr jobs0"
    and "schedule NotStarted (evs1 @ evs2)"
  shows "((\<forall>ev \<in> set (evs1 @ evs2). \<not> is_cancel ev) \<longrightarrow>
            sorted (map rank (status_trace jid jobs0 (evs1 @ evs2)))
            \<and> (\<forall>st \<in> set (status_trace jid jobs0 (evs1 @ evs2)).
                  st \<in> {Some PENDING, Some RUNNING, Some COMPLETED, Some FAILED}))
       \<and> (map_option status (run_events jid jobs0 evs1 jid) \<in> {Some COMPLETED, Some FAILED} \<longrightarrow>
            run_events jid jobs0 (evs1 @ evs2) = run_events jid jobs0 evs1)"
proof -
  from start_scraping_pending [of jobs url jid jobs0] assms(1)
  obtain j where j: "jobs0 jid = Some j" "status j = PENDING" by blast
  have part1: "sorted (map rank (status_trace jid jobs0 (evs1 @ evs2)))
      \<and> (\<forall>st \<in> set (status_trace jid jobs0 (evs1 @ evs2)).
            st \<in> {Some PENDING, Some RUNNING, Some COMPLETED, Some FAILED})"
    if nc: "\<forall>ev \<in> set (evs1 @ evs2). \<not> is_cancel ev"
  proof -
    from trace_uncancelled [of jobs0 jid j NotStarted "evs1 @ evs2"] j assms(2) nc
    have srt: "sorted (map rank (status_trace jid jobs0 (evs1 @ evs2)))"
      and ok: "\<forall>st \<in> set (status_trace jid jobs0 (evs1 @ evs2)).
                 st \<noteq> None \<and> st \<noteq> Some CANCELLED"
      by simp_all
    have "st \<in> {Some PENDING, Some RUNNING, Some COMPLETED, Some FAILED}"
      if "st \<noteq> None" "st \<noteq> Some CANCELLED" for st :: "JobStatus option"
      using that by (cases st) (auto intro: JobStatus.exhaust)
    with srt ok show ?thesis by blast
  qed
  have part2: "run_events jid jobs0 (evs1 @ evs2) = run_events jid jobs0 evs1"
    if fin: "map_option status (run_events jid jobs0 evs1 jid) \<in> {Some COMPLETED, Some FAILED}"
  proof -
    from fin obtain j1 where j1: "run_events jid jobs0 evs1 jid = Some j1"
      "status j1 = COMPLETED \<or> status j1 = FAILED"
      by auto
    from finished_is_final [of jobs0 jid j evs1 evs2 j1] j assms(2) j1
    show ?thesis by simp
  qed
  from part1 part2 show ?thesis by blast
qed

theorem job_status_lifecycle_witness:
  "sorted (map rank (status_trace ''j1'' [''j1'' \<mapsto> pending_job]
                       ([Start 1, Progress 50 5] @ [Success 7 10 3])))
   \<and> run_events ''j1'' [''j1'' \<mapsto> pending_job] ([Start 1, Success 7 10 3] @ [Cancel 4])
       = run_events ''j1'' [''j1'' \<mapsto> pending_job] [Start 1, Success 7 10 3]"
proof -
  have s1: "schedule NotStarted ([Start 1, Progress 50 5] @ [Success 7 10 3])"
    by (simp add: schedule_def)
  have nc: "\<forall>ev \<in> set ([Start 1, Progress 50 5] @ [Success 7 10 3]). \<not> is_cancel ev"
    by simp
  have s2: "schedule NotStarted ([Start 1, Success 7 10 3] @ [Cancel 4])"
    by (simp add: schedule_def)
  have fin: "map_option status
               (run_events ''j1'' [''j1'' \<mapsto> pending_job] [Start 1, Success 7 10 3] ''j1'')
             \<in> {Some COMPLETED, Some FAILED}"
    by (simp add: run_events_def keep_def run_scrape_job_start_def
          run_scrape_job_success_def update_job_def)
  from job_status_lifecycle [OF start_scraping_example s1] nc
  have A: "sorted (map rank (status_trace ''j1'' [''j1'' \<mapsto> pending_job]
                               ([Start 1, Progress 50 5] @ [Success 7 10 3])))"
    by blast
  from job_status_lifecycle [OF start_scraping_example s2] fin
  have B: "run_events ''j1'' [''j1'' \<mapsto> pending_job] ([Start 1, Success 7 10 3] @ [Cancel 4])
             = run_events ''j1'' [''j1'' \<mapsto> pending_job] [Start 1, Success 7 10 3]"
    by blast
  from A B show ?thesis by (rule conjI)
qed

text \<open>
  C1 as stated fails: the job is cancelled while its task scrapes, and the task's
  normal return then sets the cancelled job to completed.
\<close>

theorem cancelled_job_set_to_completed:
  "start_scraping Map.empty ''https://www.amazon.in/dp/B0ABCDEFGH'' ''j1''
     = Inr [''j1'' \<mapsto> pending_job]
   \<and> schedule NotStarted [Start 1, Cancel 2, Success 7 10 3]
   \<and> status_trace ''j1'' [''j1'' \<mapsto> pending_job] [Start 1, Cancel 2, Success 7 10 3]
     = [Some PENDING, Some RUNNING, Some CANCELLED, Some COMPLETED]"
  by (simp add: start_scraping_example schedule_def keep_def run_scrape_job_start_def
        run_scrape_job_success_def update_job_def cancel_scrape_def pending_job_def)

text \<open>
  C2, as the code has it. A cancel on a job that is completed or failed is rejected
  with the invalid-state error (status 400, "Job already finished") and leaves the
  registry as it is; a cancel on a job that is pending or running succeeds and marks
  it cancelled.
\<close>

theorem cancel_scrape_by_status:
  assumes "jobs jid = Some j"
  shows "(status j = COMPLETED \<or> status j = FAILED \<longrightarrow>
            cancel_scrape jobs jid now = Inl (HTTPException 400 ''Job already finished'')
            \<and> apply_event jid jobs (Cancel now) = jobs)
       \<and> (status j = PENDING \<or> status j = RUNNING \<longrightarrow>
            cancel_scrape jobs jid now =
              Inr (jobs(jid \<mapsto> j\<lparr>status := CANCELLED, completed_at := Some now,
                                    message := Some ''Job cancelled by user''\<rparr>),
                   ''Job cancelled''))"
  using assms by (auto simp: cancel_scrape_def keep_def)

theorem cancel_scrape_by_status_witness:
  "[''j1'' \<mapsto> completed_job] ''j1'' = Some completed_job
   \<and> status completed_job = COMPLETED
   \<and> cancel_scrape [''j1'' \<mapsto> completed_job] ''j1'' 9
       = Inl (HTTPException 400 ''Job already finished'')
   \<and> apply_event ''j1'' [''j1'' \<mapsto> completed_job] (Cancel 9) = [''j1'' \<mapsto> completed_job]
   \<and> status pending_job = PENDING
   \<and> cancel_scrape [''j1'' \<mapsto> pending_job] ''j1'' 9
       = Inr ([''j1'' \<mapsto> pending_job](''j1'' \<mapsto>
                pending_job\<lparr>status := CANCELLED, completed_at := Some 9,
                              message := Some ''Job cancelled by user''\<rparr>),
              ''Job cancelled'')"
proof -
  have c: "[''j1'' \<mapsto> completed_job] ''j1'' = Some completed_job" by simp
  have cs: "status completed_job = COMPLETED" by (simp add: completed_job_def)
  have p: "[''j1'' \<mapsto> pending_job] ''j1'' = Some pending_job" by simp
  have ps: "status pending_job = PENDING" by (simp add: pending_job_def)
  from cancel_scrape_by_status
    [where jobs = "[''j1'' \<mapsto> completed_job]" and jid = "''j1''" and j = completed_job
       and now = 9, OF c] cs
  have A: "cancel_scrape [''j1'' \<mapsto> completed_job] ''j1'' 9
             = Inl (HTTPException 400 ''Job already finished'')
           \<and> apply_event ''j1'' [''j1'' \<mapsto> completed_job] (Cancel 9) = [''j1'' \<mapsto> completed_job]"
    by blast
  from cancel_scrape_by_status
    [where jobs = "[''j1'' \<mapsto> pending_job]" and jid = "''j1''" and j = pending_job
       and now = 9, OF p] ps
  have B: "cancel_scrape [''j1'' \<mapsto> pending_job] ''j1'' 9
       = Inr ([''j1'' \<mapsto> pending_job](''j1'' \<mapsto>
                pending_job\<lparr>status := CANCELLED, completed_at := Some 9,
                              message := Some ''Job cancelled by user''\<rparr>),
              ''Job cancelled'')"
    by blast
  from c cs ps A B show ?thesis by blast
qed

text \<open>
  C2 as stated fails for the third status it names: a job that is already cancelled
  (here after \<open>Start\<close> and a first cancel) is cancelled again without an error, and
  its completion time is overwritten.
\<close>

theorem cancel_accepts_cancelled_job:
  "run_events ''j1'' [''j1'' \<mapsto> pending_job] [Start 1, Cancel 2] = [''j1'' \<mapsto> cancelled_job]
   \<and> cancel_scrape [''j1'' \<mapsto> cancelled_job] ''j1'' 3
     = Inr ([''j1'' \<mapsto> cancelled_job\<lparr>completed_at := Some 3\<rparr>], ''Job cancelled'')"
  by (simp add: run_events_def keep_def run_scrape_job_start_def update_job_def
        cancel_scrape_def pending_job_def cancelled_job_def)

section \<open>Scrape sessions: what the accumulated list keeps\<close>

text \<open>
  A property of the accumulated list that holds at the start and survives the one
  way the list grows (appending a review with a new text while below the maximum)
  holds throughout.
\<close>

lemma amazon_for_divs_rule:
  assumes "P (reviews s)"
    and step: "\<And>rs r. P rs \<Longrightarrow> int (length rs) < mx \<Longrightarrow>
                 \<not> list_ex (\<lambda>x. r_text x = r_text r) rs \<Longrightarrow> P (rs @ [r])"
  shows "P (reviews (amazon_for_divs mx ds s))"
  using assms(1)
proof (induction ds arbitrary: s)
  case Nil
  then show ?case by simp
next
  case (Cons d ds)
  show ?case
  proof (cases "int (length (reviews s)) \<ge> mx")
    case True
    with Cons.prems show ?thesis by simp
  next
    case below: False
    show ?thesis
    proof (cases d)
      case None
      with below Cons show ?thesis by simp
    next
      case (Some review)
      show ?thesis
      proof (cases "list_ex (\<lambda>r. r_text r = r_text review) (reviews s)")
        case True
        with below Some Cons.prems show ?thesis
          by (simp add: Let_def Cons.IH)
      next
        case False
        with below Cons.prems have "P (reviews s @ [review])"
          by (intro step) simp_all
        with below Some False show ?thesis
          by (simp add: Let_def Cons.IH)
      qed
    qed
  qed
qed

lemma flipkart_for_reviews_rule:
  assumes "P (reviews s)"
    and step: "\<And>rs r. P rs \<Longrightarrow> int (length rs) < mx \<Longrightarrow>
                 \<not> list_ex (\<lambda>x. r_text x = r_text r) rs \<Longrightarrow> P (rs @ [r])"
  shows "P (reviews (flipkart_for_reviews mx rvs s))"
  using assms(1)
proof (induction rvs arbitrary: s)
  case Nil
  then show ?case by simp
next
  case (Cons review rvs)
  show ?case
  proof (cases "int (length (reviews s)) \<ge> mx")
    case True
    with Cons.prems show ?thesis by simp
  next
    case below: False
    show ?thesis
    proof (cases "list_ex (\<lambda>r. r_text r = r_text review) (reviews s)")
      case True
      with below Cons.prems show ?thesis by (simp add: Cons.IH)
    next
      case False
      with below Cons.prems have "P (reviews s @ [review])"
        by (intro step) simp_all
      with below False show ?thesis by (simp add: Cons.IH)
    qed
  qed
qed

lemma amazon_iteration_rule:
  assumes "P (reviews s)"
    and step: "\<And>rs r. P rs \<Longrightarrow> int (length rs) < mx \<Longrightarrow>
                 \<not> list_ex (\<lambda>x. r_text x = r_text r) rs \<Longrightarrow> P (rs @ [r])"
    and it: "amazon_iteration mx fd pg s = Break s' \<or> amazon_iteration mx fd pg s = Continue s'"
  shows "P (reviews s')"
proof -
  have grow: "P (reviews (amazon_for_divs mx ds s0))" if "reviews s0 = reviews s" for ds s0
    using that assms(1) step by (intro amazon_for_divs_rule [where P = P]) simp_all
  show ?thesis
  proof (cases "fst pg")
    case Raises
    with it assms(1) show ?thesis by (auto simp: amazon_iteration_def Let_def)
  next
    case (Response code sp)
    with it assms(1) show ?thesis
      unfolding amazon_iteration_def Let_def
      by (auto split: if_splits fetch.splits simp: grow)
  qed
qed

lemma flipkart_iteration_rule:
  assumes "P (reviews s)"
    and step: "\<And>rs r. P rs \<Longrightarrow> int (length rs) < mx \<Longrightarrow>
                 \<not> list_ex (\<lambda>x. r_text x = r_text r) rs \<Longrightarrow> P (rs @ [r])"
  shows "P (reviews (flipkart_iteration mx pg s))"
proof -
  have grow: "P (reviews (flipkart_for_reviews mx rvs s0))" if "reviews s0 = reviews s" for rvs s0
    using that assms(1) step by (intro flipkart_for_reviews_rule [where P = P]) simp_all
  show ?thesis
    using assms(1) unfolding flipkart_iteration_def Let_def
    by (auto split: fetch.splits simp: grow)
qed

lemma amazon_loop_rule:
  assumes "amazon_loop mx fd pgs s = Some s'" "P (reviews s)"
    and step: "\<And>rs r. P rs \<Longrightarrow> int (length rs) < mx \<Longrightarrow>
                 \<not> list_ex (\<lambda>x. r_text x = r_text r) rs \<Longrightarrow> P (rs @ [r])"
  shows "P (reviews s')"
  using assms(1,2)
proof (induction pgs arbitrary: s)
  case Nil
  then show ?case by (simp split: if_splits)
next
  case (Cons pg pgs)
  show ?case
  proof (cases "loop_cond mx s")
    case False
    with Cons.prems show ?thesis by simp
  next
    case True
    show ?thesis
    proof (cases "amazon_iteration mx fd pg s")
      case (Break s1)
      with True Cons.prems(1) have "s' = s1" by simp
      with Break amazon_iteration_rule [where P = P and fd = fd and pg = pg and s' = s1, OF Cons.prems(2) step]
      show ?thesis by simp
    next
      case (Continue s1)
      with True Cons.prems(1) have run: "amazon_loop mx fd pgs s1 = Some s'" by simp
      from Continue amazon_iteration_rule [where P = P and fd = fd and pg = pg and s' = s1, OF Cons.prems(2) step]
      have "P (reviews s1)" by simp
      with run show ?thesis by (rule Cons.IH)
    qed
  qed
qed

lemma flipkart_loop_rule:
  assumes "flipkart_loop mx pgs s = Some s'" "P (reviews s)"
    and step: "\<And>rs r. P rs \<Longrightarrow> int (length rs) < mx \<Longrightarrow>
                 \<not> list_ex (\<lambda>x. r_text x = r_text r) rs \<Longrightarrow> P (rs @ [r])"
  shows "P (reviews s')"
  using assms(1,2)
proof (induction pgs arbitrary: s)
  case Nil
  then show ?case by (simp split: if_splits)
next
  case (Cons pg pgs)
  show ?case
  proof (cases "loop_cond mx s \<and> \<not> page s > max_pages")
    case False
    with Cons.prems show ?thesis by (auto split: if_splits)
  next
    case True
    with Cons.prems(1) have run: "flipkart_loop mx pgs (flipkart_iteration mx pg s) = Some s'"
      by simp
    from flipkart_iteration_rule [where P = P, OF Cons.prems(2) step]
    have "P (reviews (flipkart_iteration mx pg s))" by simp
    with run show ?thesis by (rule Cons.IH)
  qed
qed

lemma amazon_example:
  "amazon_scrape_reviews 2 True
     [(Response 200 (reviews_soup [Some review_a, Some review_a_again, None, Some review_b]), Raises)]
   = Some [review_a, review_b]"
  by code_simp

lemma flipkart_example:
  "flipkart_scrape_reviews 2 ProductUrl [Response 200 [review_a, review_a_again, review_b]]
   = Some [review_a, review_b]"
  by code_simp

text \<open>
  C4. Whatever the network returns and however the session ends, the list a completed
  session returns holds no two reviews with the same text, on Amazon and on Flipkart:
  a review is appended only when no accumulated review has its text.
\<close>

theorem scrape_reviews_no_duplicate_text:
  "(amazon_scrape_reviews mx fd pgs = Some rs \<longrightarrow> distinct (map r_text rs))
   \<and> (flipkart_scrape_reviews mx res fpgs = Some rs' \<longrightarrow> distinct (map r_text rs'))"
proof (intro conjI impI)
  assume "amazon_scrape_reviews mx fd pgs = Some rs"
  then obtain s' where run: "amazon_loop mx fd pgs initial_state = Some s'" and rs: "rs = reviews s'"
    by (auto simp: amazon_scrape_reviews_def)
  have "distinct (map r_text (reviews s'))"
    by (rule amazon_loop_rule [where P = "\<lambda>rs. distinct (map r_text rs)", OF run])
       (auto simp: initial_state_def list_ex_iff)
  with rs show "distinct (map r_text rs)" by simp
next
  assume a: "flipkart_scrape_reviews mx res fpgs = Some rs'"
  show "distinct (map r_text rs')"
  proof (cases "res = SearchNotFound")
    case True
    with a show ?thesis by (simp add: flipkart_scrape_reviews_def)
  next
    case False
    with a obtain s' where run: "flipkart_loop mx fpgs initial_state = Some s'"
      and rs: "rs' = reviews s'"
      by (cases res) (auto simp: flipkart_scrape_reviews_def)
    have "distinct (map r_text (reviews s'))"
      by (rule flipkart_loop_rule [where P = "\<lambda>rs. distinct (map r_text rs)", OF run])
         (auto simp: initial_state_def list_ex_iff)
    with rs show ?thesis by simp
  qed
qed

theorem scrape_reviews_no_duplicate_text_witness:
  "amazon_scrape_reviews 2 True
     [(Response 200 (reviews_soup [Some review_a, Some review_a_again, None, Some review_b]), Raises)]
     = Some [review_a, review_b]
   \<and> flipkart_scrape_reviews 2 ProductUrl [Response 200 [review_a, review_a_again, review_b]]
     = Some [review_a, review_b]
   \<and> distinct (map r_text [review_a, review_b])"
proof -
  note T = scrape_reviews_no_duplicate_text
    [where mx = 2 and fd = True and rs = "[review_a, review_b]" and res = ProductUrl
       and rs' = "[review_a, review_b]"
       and pgs = "[(Response 200 (reviews_soup [Some review_a, Some review_a_again, None,
                     Some review_b]), Raises)]"
       and fpgs = "[Response 200 [review_a, review_a_again, review_b]]"]
  from T amazon_example have "distinct (map r_text [review_a, review_b])" by blast
  with amazon_example flipkart_example show ?thesis by blast
qed

text \<open>
  C10. For every maximum a caller passes (a count, so not negative; the request
  schemas bound it to 10..500) and every sequence of responses, a completed session
  returns at most that many reviews, on Amazon and on Flipkart: the loop over a
  page's reviews stops appending once the accumulated count has reached the maximum.
\<close>

theorem scrape_reviews_at_most_max:
  assumes "0 \<le> mx"
  shows "(amazon_scrape_reviews mx fd pgs = Some rs \<longrightarrow> int (length rs) \<le> mx)
   \<and> (flipkart_scrape_reviews mx res fpgs = Some rs' \<longrightarrow> int (length rs') \<le> mx)"
proof (intro conjI impI)
  assume "amazon_scrape_reviews mx fd pgs = Some rs"
  then obtain s' where run: "amazon_loop mx fd pgs initial_state = Some s'" and rs: "rs = reviews s'"
    by (auto simp: amazon_scrape_reviews_def)
  have "int (length (reviews s')) \<le> mx"
    by (rule amazon_loop_rule [where P = "\<lambda>rs. int (length rs) \<le> mx", OF run])
       (use assms in \<open>simp_all add: initial_state_def\<close>)
  with rs show "int (length rs) \<le> mx" by simp
next
  assume a: "flipkart_scrape_reviews mx res fpgs = Some rs'"
  show "int (length rs') \<le> mx"
  proof (cases "res = SearchNotFound")
    case True
    with a assms show ?thesis by (simp add: flipkart_scrape_reviews_def)
  next
    case False
    with a obtain s' where run: "flipkart_loop mx fpgs initial_state = Some s'"
      and rs: "rs' = reviews s'"
      by (cases res) (auto simp: flipkart_scrape_reviews_def)
    have "int (length (reviews s')) \<le> mx"
      by (rule flipkart_loop_rule [where P = "\<lambda>rs. int (length rs) \<le> mx", OF run])
         (use assms in \<open>simp_all add: initial_state_def\<close>)
    with rs show ?thesis by simp
  qed
qed

theorem scrape_reviews_at_most_max_witness:
  "(0::int) \<le> 2
   \<and> amazon_scrape_reviews 2 True
     [(Response 200 (reviews_soup [Some review_a, Some review_a_again, None, Some review_b]), Raises)]
     = Some [review_a, review_b]
   \<and> flipkart_scrape_reviews 2 ProductUrl [Response 200 [review_a, review_a_again, review_b]]
     = Some [review_a, review_b]
   \<and> int (length [review_a, review_b]) \<le> 2"
proof -
  have nonneg: "(0::int) \<le> 2" by simp
  note T = scrape_reviews_at_most_max
    [OF nonneg, where fd = True and rs = "[review_a, review_b]" and res = ProductUrl
       and rs' = "[review_a, review_b]"
       and pgs = "[(Response 200 (reviews_soup [Some review_a, Some review_a_again, None,
                     Some review_b]), Raises)]"
       and fpgs = "[Response 200 [review_a, review_a_again, review_b]]"]
  from T amazon_example have "int (length [review_a, review_b]) \<le> 2" by blast
  with nonneg amazon_example flipkart_example show ?thesis by blast
qed

section \<open>Scrape sessions: the end of the pagination\<close>

text \<open>
  The Flipkart session stops at the page ceiling: it never asks for a page beyond
  25, and every session ends within 130 requests.
\<close>

lemma flipkart_for_reviews_fields:
  "page (flipkart_for_reviews mx rvs s) = page s
   \<and> consecutive_errors (flipkart_for_reviews mx rvs s) = consecutive_errors s
   \<and> consecutive_empty (flipkart_for_reviews mx rvs s) = consecutive_empty s
   \<and> requested (flipkart_for_reviews mx rvs s) = requested s"
  by (induction rvs arbitrary: s) auto

lemma flipkart_iteration_requested:
  "requested (flipkart_iteration mx pg s) = requested s @ [page s]"
  by (cases pg) (simp_all add: flipkart_iteration_def Let_def flipkart_for_reviews_fields)

lemma flipkart_iteration_measure:
  assumes "consecutive_errors s < 5" "page s \<le> 25"
  shows "5 * (26 - page (flipkart_iteration mx pg s))
           + (5 - consecutive_errors (flipkart_iteration mx pg s))
         < 5 * (26 - page s) + (5 - consecutive_errors s)"
proof (cases pg)
  case Raises
  with assms show ?thesis by (simp add: flipkart_iteration_def Let_def)
next
  case (Response code rvs)
  show ?thesis
  proof (cases "code \<noteq> 200")
    case True
    with assms Response show ?thesis by (simp add: flipkart_iteration_def Let_def)
  next
    case ok: False
    show ?thesis
    proof (cases "rvs = []")
      case True
      with assms Response ok show ?thesis by (simp add: flipkart_iteration_def Let_def)
    next
      case False
      with Response ok
      have "page (flipkart_iteration mx pg s) = page s + 1"
        "consecutive_errors (flipkart_iteration mx pg s) = 0"
        by (simp_all add: flipkart_iteration_def Let_def flipkart_for_reviews_fields)
      with assms show ?thesis by simp
    qed
  qed
qed

lemma flipkart_loop_terminates:
  "5 * (26 - page s) + (5 - consecutive_errors s) \<le> length pgs \<Longrightarrow>
   \<exists>s'. flipkart_loop mx pgs s = Some s'"
proof (induction pgs arbitrary: s)
  case Nil
  then have "page s > max_pages" by (simp add: max_pages_def)
  then show ?case by simp
next
  case (Cons pg pgs)
  show ?case
  proof (cases "loop_cond mx s \<and> \<not> page s > max_pages")
    case False
    then show ?thesis by auto
  next
    case True
    then have "consecutive_errors s < 5" "page s \<le> 25"
      by (simp_all add: loop_cond_def max_pages_def)
    from flipkart_iteration_measure [OF this, of mx pg] Cons.prems
    have "5 * (26 - page (flipkart_iteration mx pg s))
            + (5 - consecutive_errors (flipkart_iteration mx pg s)) \<le> length pgs"
      by simp
    from Cons.IH [OF this] True show ?thesis by simp
  qed
qed

lemma flipkart_scrape_reviews_terminates:
  "130 \<le> length pgs \<Longrightarrow> \<exists>rs. flipkart_scrape_reviews mx res pgs = Some rs"
  using flipkart_loop_terminates [of initial_state pgs mx]
  by (cases res) (auto simp: flipkart_scrape_reviews_def initial_state_def)

lemma flipkart_requested_le:
  "flipkart_loop mx pgs s = Some s' \<Longrightarrow> \<forall>p \<in> set (requested s). p \<le> max_pages \<Longrightarrow>
   \<forall>p \<in> set (requested s'). p \<le> max_pages"
proof (induction pgs arbitrary: s)
  case Nil
  then show ?case by (simp split: if_splits)
next
  case (Cons pg pgs)
  show ?case
  proof (cases "loop_cond mx s \<and> \<not> page s > max_pages")
    case False
    with Cons.prems show ?thesis by (auto split: if_splits)
  next
    case True
    with Cons.prems(1) have run: "flipkart_loop mx pgs (flipkart_iteration mx pg s) = Some s'"
      by simp
    from True Cons.prems(2)
    have "\<forall>p \<in> set (requested (flipkart_iteration mx pg s)). p \<le> max_pages"
      by (auto simp: flipkart_iteration_requested)
    with run show ?thesis by (rule Cons.IH)
  qed
qed

text \<open>
  The Amazon loop has no page ceiling. On a site that answers every page with the same
  review, the session is still running after any number of pages.
\<close>

lemma amazon_loop_endless_step:
  assumes "consecutive_empty s < 3" "consecutive_errors s < 5"
    "reviews s = [] \<or> reviews s = [review_a]"
  shows "amazon_loop 10 fd (replicate n (Response 200 (reviews_soup [Some review_a]), fb)) s = None"
  using assms
proof (induction n arbitrary: s)
  case 0
  then show ?case by (auto simp: loop_cond_def)
next
  case (Suc n)
  then have c: "loop_cond 10 s" by (auto simp: loop_cond_def)
  obtain s1 where it: "amazon_iteration 10 fd (Response 200 (reviews_soup [Some review_a]), fb) s
      = Continue s1" and s1: "consecutive_empty s1 = 0" "consecutive_errors s1 = 0"
      "reviews s1 = [review_a]"
    using Suc.prems(3)
    by (auto simp: amazon_iteration_def Let_def reviews_soup_def)
  from Suc.IH [of s1] s1 have "amazon_loop 10 fd (replicate n (Response 200 (reviews_soup [Some review_a]), fb)) s1 = None"
    by simp
  with c it show ?case by simp
qed

lemma amazon_loop_endless:
  "amazon_scrape_reviews 10 fd (replicate n (Response 200 (reviews_soup [Some review_a]), fb)) = None"
  by (simp add: amazon_scrape_reviews_def amazon_loop_endless_step initial_state_def)

lemma flipkart_stops_at_page_25:
  "map_option (\<lambda>s. (requested s, map r_text (reviews s)))
     (flipkart_loop 10 (replicate 30 (Response 200 [review_a])) initial_state)
   = Some ([1..<26], [''Great phone''])"
  by code_simp

text \<open>
  C5 on the code: with a requested maximum of 10 and the same single review on every
  page, the Amazon session asks for page 26 (and 27, where a CAPTCHA page ends it
  here), with one review accumulated.
\<close>

theorem amazon_requests_page_26:
  "map_option (\<lambda>s. (requested s, map r_text (reviews s)))
     (amazon_loop 10 True
        (replicate 26 (Response 200 (reviews_soup [Some review_a]), Raises)
           @ [(Response 200 captcha_soup, Raises)])
        initial_state)
   = Some ([1..<28], [''Great phone''])"
  by code_simp

section \<open>Sentiment stage: texts without content\<close>

text \<open>The single-text path answers neutral, 0.5 and does not call the pipeline.\<close>

lemma analyze_text_short_is_neutral:
  "text = [] \<or> length (py_strip text) < 3 \<Longrightarrow> analyze_text p text = ((''neutral'', 0.5), [])"
  by (auto simp: analyze_text_def)

text \<open>
  C6 on the code: the batched path, which the sentiment stage uses for the reviews,
  has no such guard. The texts "ok" and "" are sent to the pipeline and get its
  answer (here positive, 0.99), and the stage stores that on the review.
\<close>

theorem batch_classifies_short_text:
  "analyze_text (Some always_positive) ''ok'' = ((''neutral'', 0.5), [])
   \<and> analyze_texts_batch (Some always_positive) [''ok'', ''''] 32
       = Inr ([(''positive'', 0.99), (''positive'', 0.99)], [[''ok'', '''']])
   \<and> map_sum id (\<lambda>(r, calls). (map (\<lambda>x. (sentiment_label x, sentiment_score x)) (rows r), calls))
         (analyze_product_sentiment (Some always_positive) [short_review])
       = Inr ([(Some ''positive'', Some 0.99)], [[''ok'']])"
  by (simp add: analyze_text_def py_strip_def py_isspace_def analyze_texts_batch_def
        texts_batches.simps analyze_batch_def always_positive_def label_of_result_def
        py_lower_def lower_char_def uppercase_def lowercase_def analyze_product_sentiment_def
        short_review_def
        bad_review_def Let_def)

section \<open>Insights stage: the overall score\<close>

lemma signed_total_acc:
  fixes f :: "real \<Rightarrow> string \<times> real \<Rightarrow> real"
  defines "f \<equiv> (\<lambda>total_score (label, score).
            if label = ''positive'' then total_score + score
            else if label = ''negative'' then total_score - score
            else total_score)"
  shows "foldl f a xs = a + foldl f 0 xs"
proof (induction xs arbitrary: a)
  case Nil
  then show ?case by simp
next
  case (Cons x xs)
  have step: "f a x = a + f 0 x" by (cases x) (simp add: f_def)
  from Cons.IH [of "f a x"] Cons.IH [of "f 0 x"] step show ?case by simp
qed

lemma signed_total_Cons:
  "signed_total ((l, c) # xs) =
     (if l = ''positive'' then c else if l = ''negative'' then - c else 0) + signed_total xs"
  unfolding signed_total_def
  by (subst foldl_Cons, subst signed_total_acc) simp

lemma signed_total_unit:
  "signed_total (map (\<lambda>r. (the (sentiment_label r), 1)) (filter labelled rs))
   = real (length (filter (\<lambda>r. sentiment_label r = Some ''positive'') (filter labelled rs)))
     - real (length (filter (\<lambda>r. sentiment_label r = Some ''negative'') (filter labelled rs)))"
proof (induction rs)
  case Nil
  then show ?case by (simp add: signed_total_def)
next
  case (Cons r rs)
  show ?case
  proof (cases "sentiment_label r")
    case None
    with Cons show ?thesis by (simp add: labelled_def)
  next
    case (Some l)
    with Cons show ?thesis by (auto simp: labelled_def signed_total_Cons)
  qed
qed

text \<open>
  C7, as the code has it. For a product with at least one labelled review the overall
  score (before rounding to two decimals) is 0.6 times the sentiment component plus
  0.4 times the rating component \<open>avg_rating / 5 * 100\<close>, where the sentiment
  component is the signed-score formula over the labelled reviews with every
  confidence taken as 1: \<open>((#positive - #negative) / N + 1) / 2 * 100\<close>.
\<close>

theorem insights_overall_score_formula:
  assumes "filter labelled rs \<noteq> []"
  shows "generate_product_insights True pid rs =
     Inr (0.6 * normalized_score (unit_sentiments rs) (length (filter labelled rs))
          + 0.4 * (real_of_int (sum_list (map rating rs)) / real (length rs) / 5 * 100))"
proof -
  from assms have ne: "rs \<noteq> []" by auto
  from assms have n: "length (filter labelled rs) > 0" by simp
  have "sentiment_component rs = normalized_score (unit_sentiments rs) (length (filter labelled rs))"
    using n
    by (simp add: sentiment_component_def normalized_score_def unit_sentiments_def
          signed_total_unit sentiment_dist_def Let_def diff_divide_distrib)
  with ne show ?thesis
    by (simp add: generate_product_insights_def insights_overall_score_def rating_score_def Let_def)
qed

theorem insights_overall_score_formula_witness:
  "filter labelled [positive_review] \<noteq> []
   \<and> generate_product_insights True 1 [positive_review] =
     Inr (0.6 * normalized_score (unit_sentiments [positive_review])
                  (length (filter labelled [positive_review]))
          + 0.4 * (real_of_int (sum_list (map rating [positive_review]))
                     / real (length [positive_review]) / 5 * 100))"
proof -
  have h: "filter labelled [positive_review] \<noteq> []"
    by (simp add: labelled_def positive_review_def)
  show ?thesis
    by (rule conjI [OF h insights_overall_score_formula [OF h]])
qed

text \<open>
  C7 as stated fails: one review, rated 5, positive with confidence 0.8. The insights
  stage gives 100; the signed-score formula of the sentiment stage on the stored
  confidence would give \<open>0.6 * 90 + 0.4 * 100 = 94\<close>.
\<close>

theorem insights_score_ignores_confidence:
  "generate_product_insights True 1 [positive_review] = Inr 100
   \<and> 0.6 * normalized_score (stored_sentiments [positive_review]) 1
       + 0.4 * (real_of_int (rating positive_review) / 5 * 100) = 94"
  by (simp add: generate_product_insights_def insights_overall_score_def rating_score_def
        sentiment_component_def sentiment_dist_def labelled_def positive_review_def
        normalized_score_def stored_sentiments_def signed_total_def Let_def)

section \<open>Analysis cache: a fresh entry is served\<close>

lemma newest_None: "newest xs = None \<longleftrightarrow> xs = []"
  by (cases xs) (auto split: option.splits)

lemma newest_latest:
  "newest xs = Some c \<Longrightarrow> c \<in> set xs \<and> (\<forall>d \<in> set xs. created_at d \<le> created_at c)"
proof (induction xs arbitrary: c)
  case Nil
  then show ?case by simp
next
  case (Cons x xs)
  show ?case
  proof (cases "newest xs")
    case None
    with Cons.prems have "c = x" "xs = []" by (simp_all add: newest_None)
    then show ?thesis by simp
  next
    case (Some d)
    from Cons.IH [OF Some] have d: "d \<in> set xs" "\<forall>e \<in> set xs. created_at e \<le> created_at d"
      by simp_all
    show ?thesis
    proof (cases "created_at d > created_at x")
      case True
      with Some Cons.prems have "c = d" by simp
      with d True show ?thesis by auto
    next
      case False
      with Some Cons.prems have "c = x" by simp
      with d False show ?thesis by fastforce
    qed
  qed
qed

lemma newest_snoc:
  "\<forall>d \<in> set xs. created_at d < created_at e \<Longrightarrow> newest (xs @ [e]) = Some e"
  by (induction xs) simp_all

lemma cache_rows_save:
  "cache_rows (save_analysis_cache (db\<lparr>stage_runs := k\<rparr>) t pid ty res) pid ty
   = cache_rows db pid ty
       @ [\<lparr>cache_product_id = pid, analysis_type = ty, results = res, created_at = t\<rparr>]"
  by (simp add: cache_rows_def save_analysis_cache_def)


lemma cache_hit:
  assumes "pid \<in> set (products db)" "newest (cache_rows db pid ty) = Some c"
    "now - created_at c < 86400" "results c \<noteq> []"
  shows "get_analysis ty stage db pid False now saved = Inr (results c, db)"
  using assms
  by (cases "results c") (simp_all add: get_analysis_def get_cached_analysis_def Let_def)

lemma cache_miss:
  assumes "pid \<in> set (products db)" "get_cached_analysis db now pid ty = None"
  shows "get_analysis ty stage db pid False now saved =
     (case stage (stage_runs db) of
        None \<Rightarrow> Inl PipelineError
      | Some res \<Rightarrow>
          Inr (res, save_analysis_cache (db\<lparr>stage_runs := stage_runs db + 1\<rparr>) saved pid ty res))"
  using assms by (simp add: get_analysis_def Let_def)


text \<open>
  After a miss the row the call inserts is the newest one for its product and stage,
  so a second call within 24 hours of that insertion is served from it.
\<close>

lemma miss_inserts_newest:
  assumes "pid \<in> set (products db)" and "get_cached_analysis db t1 pid ty = None"
    and "t1 \<le> s1" and "get_analysis ty stage db pid False t1 s1 = Inr (r1, db1)"
  shows "db1 = save_analysis_cache (db\<lparr>stage_runs := stage_runs db + 1\<rparr>) s1 pid ty r1
     \<and> stage (stage_runs db) = Some r1
     \<and> newest (cache_rows db1 pid ty)
         = Some \<lparr>cache_product_id = pid, analysis_type = ty, results = r1, created_at = s1\<rparr>"
proof -
  from assms(4) cache_miss [OF assms(1,2), of stage s1]
  have res: "stage (stage_runs db) = Some r1"
    "db1 = save_analysis_cache (db\<lparr>stage_runs := stage_runs db + 1\<rparr>) s1 pid ty r1"
    by (auto split: option.splits)
  let ?new = "\<lparr>cache_product_id = pid, analysis_type = ty, results = r1, created_at = s1\<rparr>"
  have old: "\<forall>d \<in> set (cache_rows db pid ty). created_at d < created_at ?new"
  proof (cases "newest (cache_rows db pid ty)")
    case None
    then show ?thesis by (simp add: newest_None)
  next
    case (Some c0)
    with assms(2) have "\<not> t1 - created_at c0 < 86400"
      by (simp add: get_cached_analysis_def Let_def split: if_splits)
    with newest_latest [OF Some] assms(3) show ?thesis by fastforce
  qed
  from res(2) have "cache_rows db1 pid ty = cache_rows db pid ty @ [?new]"
    by (simp add: cache_rows_save)
  with newest_snoc [OF old] res show ?thesis by simp
qed

lemma second_call_after_refresh:
  assumes "pid \<in> set (products db)" and "get_cached_analysis db t1 pid ty = None"
    and "t1 \<le> s1" and "get_analysis ty stage db pid False t1 s1 = Inr (r1, db1)"
    and "r1 \<noteq> []" and "t2 - s1 < 86400"
  shows "get_analysis ty stage db1 pid False t2 s2 = Inr (r1, db1)"
proof -
  let ?new = "\<lparr>cache_product_id = pid, analysis_type = ty, results = r1, created_at = s1\<rparr>"
  from miss_inserts_newest [OF assms(1-4)]
  have db1: "db1 = save_analysis_cache (db\<lparr>stage_runs := stage_runs db + 1\<rparr>) s1 pid ty r1"
    and new: "newest (cache_rows db1 pid ty) = Some ?new"
    by blast+
  from db1 assms(1) have "pid \<in> set (products db1)" by (simp add: save_analysis_cache_def)
  from cache_hit [OF this new, of t2 stage s2] assms(5,6) show ?thesis by simp
qed




end
